theory Spec2Isabelle
  imports Main
begin

section \<open>JavaScript values and arrays, as far as App.js uses them\<close>

text \<open>
  A square of the board holds \<^verbatim>\<open>null\<close>, \<^verbatim>\<open>'X'\<close> or \<^verbatim>\<open>'O'\<close>; reading an
  array where nothing is stored gives \<^verbatim>\<open>undefined\<close>. The program never stores
  \<^verbatim>\<open>undefined\<close> itself, so inside an array \<open>Undefined\<close> stands for a hole.
\<close>

datatype jsval = Undefined | Null | MarkX | MarkO

text \<open>JavaScript truthiness: the non-empty strings are truthy, \<^verbatim>\<open>null\<close> and
  \<^verbatim>\<open>undefined\<close> are not.\<close>

fun truthy :: "jsval \<Rightarrow> bool" where
  "truthy MarkX = True"
| "truthy MarkO = True"
| "truthy Null = False"
| "truthy Undefined = False"

text \<open>
  An array: its elements (indices \<open>0 .. length - 1\<close>) and the properties stored under
  keys that are not array indices (a negative number, or one from \<open>2^32 - 1\<close> on).
\<close>

record js_array =
  elems :: "jsval list"
  props :: "int \<Rightarrow> jsval"

definition is_array_index :: "int \<Rightarrow> bool" where
  "is_array_index i = (0 \<le> i \<and> i < 4294967295)"

definition no_props :: "int \<Rightarrow> jsval" where
  "no_props = (\<lambda>k. Undefined)"

text \<open>\<^verbatim>\<open>a[i]\<close>: never throws; \<^verbatim>\<open>undefined\<close> where nothing is stored.\<close>

definition arr_get :: "js_array \<Rightarrow> int \<Rightarrow> jsval" where
  "arr_get a i =
     (if is_array_index i
      then (if nat i < length (elems a) then elems a ! nat i else Undefined)
      else props a i)"

text \<open>\<^verbatim>\<open>a[i] = v\<close>: an index beyond the end grows the array, leaving holes; a key that
  is no array index becomes a property and leaves the length alone.\<close>

definition arr_set :: "js_array \<Rightarrow> int \<Rightarrow> jsval \<Rightarrow> js_array" where
  "arr_set a i v =
     (if is_array_index i
      then (if nat i < length (elems a)
            then a\<lparr>elems := (elems a)[nat i := v]\<rparr>
            else a\<lparr>elems := elems a @ replicate (nat i - length (elems a)) Undefined @ [v]\<rparr>)
      else a\<lparr>props := (props a)(i := v)\<rparr>)"

text \<open>\<^verbatim>\<open>a.slice()\<close>: a fresh array of the elements; properties are not copied.\<close>

definition slice :: "js_array \<Rightarrow> js_array" where
  "slice a = \<lparr>elems = elems a, props = no_props\<rparr>"

text \<open>\<^verbatim>\<open>Array(9).fill(null)\<close>\<close>

definition array9_null :: js_array where
  "array9_null = \<lparr>elems = replicate 9 Null, props = no_props\<rparr>"

text \<open>\<^verbatim>\<open>a.every(Boolean)\<close>: holes are skipped, every stored element must be truthy.\<close>

definition every_Boolean :: "js_array \<Rightarrow> bool" where
  "every_Boolean a = list_all (\<lambda>v. v = Undefined \<or> truthy v) (elems a)"

section \<open>calculateWinner\<close>

type_synonym line = "int \<times> int \<times> int"

record winner_info =
  winner :: jsval
  line :: "line option"

definition lines :: "line list" where
  "lines =
     [(0, 1, 2),
      (3, 4, 5),
      (6, 7, 8),
      (0, 3, 6),
      (1, 4, 7),
      (2, 5, 8),
      (0, 4, 8),
      (2, 4, 6)]"

text \<open>The test of the loop body, for one line.\<close>

fun line_full :: "js_array \<Rightarrow> line \<Rightarrow> bool" where
  "line_full sq (a, b, c) =
     (truthy (arr_get sq a) \<and> arr_get sq a = arr_get sq b \<and> arr_get sq a = arr_get sq c)"

text \<open>The \<^verbatim>\<open>for (let line of lines)\<close> loop, returning at the first full line.\<close>

fun check_lines :: "js_array \<Rightarrow> line list \<Rightarrow> winner_info" where
  "check_lines sq [] = \<lparr>winner = Null, line = None\<rparr>"
| "check_lines sq ((a, b, c) # ls) =
     (if truthy (arr_get sq a) \<and> arr_get sq a = arr_get sq b \<and> arr_get sq a = arr_get sq c
      then \<lparr>winner = arr_get sq a, line = Some (a, b, c)\<rparr>
      else check_lines sq ls)"

definition calculateWinner :: "js_array \<Rightarrow> winner_info" where
  "calculateWinner sq = check_lines sq lines"

section \<open>The state of App and its handlers\<close>

record game_state =
  squares :: js_array
  xIsNext :: bool
  winnerInfo :: winner_info
  isDraw :: bool
  theme :: string

definition init_state :: game_state where
  "init_state =
     \<lparr>squares = array9_null,
      xIsNext = True,
      winnerInfo = \<lparr>winner = Null, line = None\<rparr>,
      isDraw = False,
      theme = ''light''\<rparr>"

text \<open>The effect that depends on \<open>squares\<close>: it runs after every render in which
  \<open>squares\<close> is a new array.\<close>

definition squares_effect :: "game_state \<Rightarrow> game_state" where
  "squares_effect s =
     (let w = calculateWinner (squares s) in
      if truthy (winner w)
      then s\<lparr>winnerInfo := w, isDraw := False\<rparr>
      else if every_Boolean (squares s)
      then s\<lparr>winnerInfo := \<lparr>winner = Null, line = None\<rparr>, isDraw := True\<rparr>
      else s\<lparr>winnerInfo := \<lparr>winner = Null, line = None\<rparr>, isDraw := False\<rparr>)"

definition toggleTheme :: "game_state \<Rightarrow> game_state" where
  "toggleTheme s = s\<lparr>theme := (if theme s = ''light'' then ''dark'' else ''light'')\<rparr>"

text \<open>The guard of \<open>handleSquareClick\<close>: \<^verbatim>\<open>winnerInfo.winner || squares[i]\<close>.\<close>

definition click_ignored :: "int \<Rightarrow> game_state \<Rightarrow> bool" where
  "click_ignored i s = (truthy (winner (winnerInfo s)) \<or> truthy (arr_get (squares s) i))"

definition handleSquareClick :: "int \<Rightarrow> game_state \<Rightarrow> game_state" where
  "handleSquareClick i s =
     (if click_ignored i s then s
      else let nextSquares = arr_set (slice (squares s)) i (if xIsNext s then MarkX else MarkO)
           in s\<lparr>squares := nextSquares, xIsNext := \<not> xIsNext s\<rparr>)"

definition handleReset :: "game_state \<Rightarrow> game_state" where
  "handleReset s =
     s\<lparr>squares := array9_null,
       xIsNext := True,
       winnerInfo := \<lparr>winner = Null, line = None\<rparr>,
       isDraw := False\<rparr>"

section \<open>The operations of the specification\<close>

text \<open>
  One user event is a handler followed by the effects of the render it causes. An
  ignored click sets no state, so no effect runs; an accepted click and a reset store
  a new array in \<open>squares\<close>, so the effect on \<open>squares\<close> runs; a theme toggle leaves
  \<open>squares\<close> alone. The handlers have no statement that can throw and return nothing.
\<close>

definition applyMove :: "int \<Rightarrow> game_state \<Rightarrow> game_state" where
  "applyMove i s =
     (if click_ignored i s then handleSquareClick i s
      else squares_effect (handleSquareClick i s))"

definition reset :: "game_state \<Rightarrow> game_state" where
  "reset s = squares_effect (handleReset s)"

text \<open>
  What a call of the click handler gives back to its caller: it throws, or it returns a
  value and leaves a state. \<open>handleSquareClick\<close> reads a property of the object
  \<open>winnerInfo\<close> and an element of the array \<open>squares\<close>, copies the array and stores
  into the copy, none of which throws for any number \<open>i\<close>; it leaves by \<^verbatim>\<open>return;\<close> or
  by its last statement, so it returns \<^verbatim>\<open>undefined\<close>. The effect returns nothing either.
\<close>

datatype completion = Thrown | Returned jsval game_state

definition handleSquareClick_completion :: "int \<Rightarrow> game_state \<Rightarrow> completion" where
  "handleSquareClick_completion i s =
     (if click_ignored i s then Returned Undefined s
      else let nextSquares = arr_set (slice (squares s)) i (if xIsNext s then MarkX else MarkO)
           in Returned Undefined (s\<lparr>squares := nextSquares, xIsNext := \<not> xIsNext s\<rparr>))"

definition applyMove_completion :: "int \<Rightarrow> game_state \<Rightarrow> completion" where
  "applyMove_completion i s =
     (case handleSquareClick_completion i s of
        Thrown \<Rightarrow> Thrown
      | Returned v s' \<Rightarrow> if click_ignored i s then Returned v s' else Returned v (squares_effect s'))"

text \<open>The outcome as \<open>renderStatus\<close> reads it off the state.\<close>

datatype outcome = InProgress | Draw | Won jsval "line option"

definition outcome :: "game_state \<Rightarrow> outcome" where
  "outcome s =
     (if truthy (winner (winnerInfo s)) then Won (winner (winnerInfo s)) (line (winnerInfo s))
      else if isDraw s then Draw
      else InProgress)"

text \<open>The outcome the effect computes for a board.\<close>

definition computeOutcome :: "js_array \<Rightarrow> outcome" where
  "computeOutcome sq = outcome (squares_effect (init_state\<lparr>squares := sq\<rparr>))"

text \<open>The events the rendered tree can send: \<open>Board\<close> renders the squares
  \<open>row * 3 + col\<close> for \<open>row\<close> and \<open>col\<close> in \<open>[0, 1, 2]\<close>, each with its own click
  handler; then the reset button and the theme button.\<close>

datatype event = SquareClick int | ResetClick | ThemeClick

definition board_indices :: "int list" where
  "board_indices = concat (map (\<lambda>row. map (\<lambda>col. row * 3 + col) [0, 1, 2]) [0, 1, 2])"

fun ui_event :: "event \<Rightarrow> bool" where
  "ui_event (SquareClick i) = (i \<in> set board_indices)"
| "ui_event ResetClick = True"
| "ui_event ThemeClick = True"

fun dispatch :: "event \<Rightarrow> game_state \<Rightarrow> game_state" where
  "dispatch (SquareClick i) s = applyMove i s"
| "dispatch ResetClick s = reset s"
| "dispatch ThemeClick s = toggleTheme s"

fun run :: "game_state \<Rightarrow> event list \<Rightarrow> game_state" where
  "run s [] = s"
| "run s (e # es) = run (dispatch e s) es"

section \<open>Boards and states of the data model\<close>

text \<open>A board of the data model: nine squares, none of them a hole.\<close>

definition is_board :: "js_array \<Rightarrow> bool" where
  "is_board a = (length (elems a) = 9 \<and> list_all (\<lambda>v. v \<noteq> Undefined) (elems a))"

text \<open>A state of the data model: its board is one, and \<open>winnerInfo\<close> and \<open>isDraw\<close>
  are what the effect computes from \<open>squares\<close>.\<close>

definition state_inv :: "game_state \<Rightarrow> bool" where
  "state_inv s = (is_board (squares s) \<and> squares_effect s = s)"

text \<open>What holds of the state after clicks at any indices whatever: the first nine
  squares are no holes, whatever lies beyond them is a hole or a mark, and \<open>winnerInfo\<close>
  and \<open>isDraw\<close> are what the effect computes from \<open>squares\<close>.\<close>

definition click_inv :: "game_state \<Rightarrow> bool" where
  "click_inv s =
     (9 \<le> length (elems (squares s))
      \<and> list_all (\<lambda>v. v \<noteq> Undefined) (take 9 (elems (squares s)))
      \<and> list_all (\<lambda>v. v \<noteq> Null) (drop 9 (elems (squares s)))
      \<and> squares_effect s = s)"

text \<open>X moves first: the board holds as many \<^verbatim>\<open>'X'\<close> as \<^verbatim>\<open>'O'\<close> when X is next,
  and one more when O is next.\<close>

definition turn_balanced :: "game_state \<Rightarrow> bool" where
  "turn_balanced s =
     (count_list (elems (squares s)) MarkX
        = count_list (elems (squares s)) MarkO + (if xIsNext s then 0 else 1))"

text \<open>The marks written by the accepted clicks of a sequence of clicks, in order.\<close>

fun accepted_marks :: "game_state \<Rightarrow> int list \<Rightarrow> jsval list" where
  "accepted_marks s [] = []"
| "accepted_marks s (i # js) =
     (if click_ignored i s then accepted_marks s js
      else (if xIsNext s then MarkX else MarkO) # accepted_marks (applyMove i s) js)"

text \<open>\<open>n\<close> marks in turn: \<^verbatim>\<open>X, O, X, O, ...\<close> when \<open>x\<close> holds, \<^verbatim>\<open>O, X, O, ...\<close>
  otherwise.\<close>

fun alternating_marks :: "bool \<Rightarrow> nat \<Rightarrow> jsval list" where
  "alternating_marks x 0 = []"
| "alternating_marks x (Suc n) = (if x then MarkX else MarkO) # alternating_marks (\<not> x) n"

section \<open>Concrete boards and states used below\<close>

text \<open>Row \<open>[0, 1, 2]\<close> and column \<open>[0, 3, 6]\<close> are both full of \<^verbatim>\<open>'X'\<close>.\<close>

definition two_lines_board :: js_array where
  "two_lines_board =
     \<lparr>elems = [MarkX, MarkX, MarkX, MarkX, MarkO, MarkO, MarkX, MarkO, MarkO], props = no_props\<rparr>"

text \<open>The board of the scenario "moves at 0 (X), 4 (O), 1 (X), 5 (O), 2 (X)".\<close>

definition x_row_board :: js_array where
  "x_row_board =
     \<lparr>elems = [MarkX, MarkX, MarkX, Null, MarkO, MarkO, Null, Null, Null], props = no_props\<rparr>"

text \<open>The board of the scenario "filled as X,O,X,O,X,O,O,X,O": four \<^verbatim>\<open>'X'\<close>, five
  \<^verbatim>\<open>'O'\<close>.\<close>

definition spec_draw_board :: js_array where
  "spec_draw_board =
     \<lparr>elems = [MarkX, MarkO, MarkX, MarkO, MarkX, MarkO, MarkO, MarkX, MarkO], props = no_props\<rparr>"

text \<open>The board after the moves 0, 1, 2, 4, 3, 5, 7, 6, 8: five \<^verbatim>\<open>'X'\<close>, four
  \<^verbatim>\<open>'O'\<close>, no full line.\<close>

definition played_draw_board :: js_array where
  "played_draw_board =
     \<lparr>elems = [MarkX, MarkO, MarkX, MarkX, MarkO, MarkO, MarkO, MarkX, MarkX], props = no_props\<rparr>"

text \<open>The state after the moves 0, 3, 1, 5, 2: X has won on the top row, square 4 is
  empty.\<close>

definition won_board :: js_array where
  "won_board =
     \<lparr>elems = [MarkX, MarkX, MarkX, MarkO, Null, MarkO, Null, Null, Null], props = no_props\<rparr>"

definition won_state :: game_state where
  "won_state =
     \<lparr>squares = won_board,
      xIsNext = False,
      winnerInfo = \<lparr>winner = MarkX, line = Some (0, 1, 2)\<rparr>,
      isDraw = False,
      theme = ''light''\<rparr>"

section \<open>Properties\<close>

declare line_full.simps [simp del]

subsection \<open>Arrays and the effect\<close>

lemma arr_get_set_same: "arr_get (arr_set a i v) i = v"
  by (simp add: arr_get_def arr_set_def nth_append)

lemma arr_get_set_other: "j \<noteq> i \<Longrightarrow> arr_get (arr_set a i v) j = arr_get a j"
  by (auto simp: arr_get_def arr_set_def nth_append is_array_index_def nth_Cons')

lemma arr_get_slice: "is_array_index j \<Longrightarrow> arr_get (slice a) j = arr_get a j"
  by (simp add: arr_get_def slice_def)

lemma squares_effect_frame:
  "squares (squares_effect s) = squares s"
  "xIsNext (squares_effect s) = xIsNext s"
  "theme (squares_effect s) = theme s"
  by (simp_all add: squares_effect_def Let_def)

lemma outcome_squares_effect: "outcome (squares_effect s) = computeOutcome (squares s)"
  by (simp add: computeOutcome_def outcome_def squares_effect_def Let_def)

lemma InProgress_not_won: "outcome s = InProgress \<Longrightarrow> \<not> truthy (winner (winnerInfo s))"
  by (auto simp: outcome_def split: if_splits)

subsection \<open>The winner computation\<close>

lemma elems_array9_null: "elems array9_null = [Null, Null, Null, Null, Null, Null, Null, Null, Null]"
  by (simp add: array9_null_def eval_nat_numeral)

lemma line_full_truthy: "line_full sq l \<Longrightarrow> truthy (arr_get sq (fst l))"
  by (cases l) (auto simp: line_full.simps)

lemma check_lines_Cons:
  "check_lines sq (l # ls) =
     (if line_full sq l then \<lparr>winner = arr_get sq (fst l), line = Some l\<rparr> else check_lines sq ls)"
  by (cases l) (simp only: check_lines.simps line_full.simps fst_conv)

lemma check_lines_find:
  "check_lines sq ls =
     (case find (line_full sq) ls of
        None \<Rightarrow> \<lparr>winner = Null, line = None\<rparr>
      | Some l \<Rightarrow> \<lparr>winner = arr_get sq (fst l), line = Some l\<rparr>)"
  by (induction ls) (simp_all add: check_lines_Cons del: check_lines.simps(2))

lemma find_first_index:
  "k < length ls \<Longrightarrow> P (ls ! k) \<Longrightarrow> \<forall>j<k. \<not> P (ls ! j) \<Longrightarrow> find P ls = Some (ls ! k)"
proof (induction ls arbitrary: k)
  case Nil
  then show ?case by simp
next
  case (Cons x xs)
  show ?case
  proof (cases k)
    case 0
    with Cons.prems show ?thesis by simp
  next
    case (Suc m)
    from Cons.prems Suc have "\<not> P x" by auto
    moreover have "find P xs = Some (xs ! m)"
      using Cons.prems Suc by (intro Cons.IH) auto
    ultimately show ?thesis using Suc by simp
  qed
qed

lemma first_index_exists:
  "l \<in> set ls \<Longrightarrow> P l \<Longrightarrow> \<exists>k<length ls. P (ls ! k) \<and> (\<forall>j<k. \<not> P (ls ! j))"
proof (induction ls)
  case Nil
  then show ?case by simp
next
  case (Cons x xs)
  show ?case
  proof (cases "P x")
    case True
    then have "0 < length (x # xs) \<and> P ((x # xs) ! 0) \<and> (\<forall>j<0. \<not> P ((x # xs) ! j))" by simp
    then show ?thesis by blast
  next
    case False
    with Cons.prems have "l \<in> set xs" by auto
    from Cons.IH [OF this Cons.prems(2)]
    obtain k where k: "k < length xs" "P (xs ! k)" "\<forall>j<k. \<not> P (xs ! j)" by blast
    have "\<forall>j<Suc k. \<not> P ((x # xs) ! j)"
      using False k(3) by (auto simp: nth_Cons')
    with k show ?thesis by (intro exI [of _ "Suc k"]) simp
  qed
qed

lemma computeOutcome_eq:
  "computeOutcome sq =
     (let w = calculateWinner sq in
      if truthy (winner w) then Won (winner w) (line w)
      else if every_Boolean sq then Draw else InProgress)"
  by (simp add: computeOutcome_def outcome_def squares_effect_def Let_def)

lemma calculateWinner_first:
  assumes "k < length lines" "line_full sq (lines ! k)" "\<forall>j<k. \<not> line_full sq (lines ! j)"
  shows "calculateWinner sq = \<lparr>winner = arr_get sq (fst (lines ! k)), line = Some (lines ! k)\<rparr>"
  using find_first_index [of k lines "line_full sq", OF assms]
  by (simp add: calculateWinner_def check_lines_find)

lemma computeOutcome_first:
  assumes "k < length lines" "line_full sq (lines ! k)" "\<forall>j<k. \<not> line_full sq (lines ! j)"
  shows "computeOutcome sq = Won (arr_get sq (fst (lines ! k))) (Some (lines ! k))"
proof -
  have "truthy (arr_get sq (fst (lines ! k)))"
    using assms(2) by (rule line_full_truthy)
  then show ?thesis
    by (simp only: computeOutcome_eq calculateWinner_first [OF assms] Let_def
        winner_info.simps if_True)
qed

lemma nth_lines:
  "lines ! 0 = (0, 1, 2)" "lines ! 1 = (3, 4, 5)" "lines ! 2 = (6, 7, 8)" "lines ! 3 = (0, 3, 6)"
  "lines ! 4 = (1, 4, 7)" "lines ! 5 = (2, 5, 8)" "lines ! 6 = (0, 4, 8)" "lines ! 7 = (2, 4, 6)"
  "length lines = 8"
  by (simp_all add: lines_def)

subsection \<open>C2: the first full line wins\<close>

text \<open>
  Claim C2. \<open>computeOutcome\<close> checks exactly the eight triples, in the order rows
  \<open>[0,1,2]\<close>, \<open>[3,4,5]\<close>, \<open>[6,7,8]\<close>, columns \<open>[0,3,6]\<close>, \<open>[1,4,7]\<close>, \<open>[2,5,8]\<close>,
  diagonals \<open>[0,4,8]\<close>, \<open>[2,4,6]\<close>. When the \<open>k\<close>-th triple is full (three equal
  marks) and no earlier one is, the outcome is \<open>Won\<close> with the mark on it and with that
  triple; so a board with any full triple is \<open>Won\<close> with the earliest full one, and a
  board whose only full triple is \<open>l\<close> is \<open>Won\<close> with exactly \<open>l\<close>.
\<close>

theorem computeOutcome_first_full_line:
  "lines = [(0, 1, 2), (3, 4, 5), (6, 7, 8), (0, 3, 6), (1, 4, 7), (2, 5, 8), (0, 4, 8), (2, 4, 6)]
   \<and> (\<forall>k. k < length lines \<and> line_full sq (lines ! k) \<and> (\<forall>j<k. \<not> line_full sq (lines ! j))
        \<longrightarrow> computeOutcome sq = Won (arr_get sq (fst (lines ! k))) (Some (lines ! k))
            \<and> truthy (arr_get sq (fst (lines ! k))))
   \<and> (\<forall>l. l \<in> set lines \<and> line_full sq l
        \<longrightarrow> (\<exists>k<length lines. line_full sq (lines ! k) \<and> (\<forall>j<k. \<not> line_full sq (lines ! j))
              \<and> computeOutcome sq = Won (arr_get sq (fst (lines ! k))) (Some (lines ! k))))
   \<and> (\<forall>l. l \<in> set lines \<and> line_full sq l \<and> (\<forall>l'. l' \<in> set lines \<and> line_full sq l' \<longrightarrow> l' = l)
        \<longrightarrow> computeOutcome sq = Won (arr_get sq (fst l)) (Some l))"
proof (intro conjI allI impI)
  show "lines = [(0, 1, 2), (3, 4, 5), (6, 7, 8), (0, 3, 6), (1, 4, 7), (2, 5, 8), (0, 4, 8), (2, 4, 6)]"
    by (simp add: lines_def)
next
  fix k
  assume "k < length lines \<and> line_full sq (lines ! k) \<and> (\<forall>j<k. \<not> line_full sq (lines ! j))"
  then show "computeOutcome sq = Won (arr_get sq (fst (lines ! k))) (Some (lines ! k))"
    by (simp add: computeOutcome_first)
next
  fix k
  assume "k < length lines \<and> line_full sq (lines ! k) \<and> (\<forall>j<k. \<not> line_full sq (lines ! j))"
  then show "truthy (arr_get sq (fst (lines ! k)))"
    by (blast intro: line_full_truthy)
next
  fix l
  assume "l \<in> set lines \<and> line_full sq l"
  then obtain k where k: "k < length lines" "line_full sq (lines ! k)"
      "\<forall>j<k. \<not> line_full sq (lines ! j)"
    using first_index_exists [of l lines "line_full sq"] by blast
  then show "\<exists>k<length lines. line_full sq (lines ! k) \<and> (\<forall>j<k. \<not> line_full sq (lines ! j))
              \<and> computeOutcome sq = Won (arr_get sq (fst (lines ! k))) (Some (lines ! k))"
    using computeOutcome_first [OF k] by blast
next
  fix l
  assume a: "l \<in> set lines \<and> line_full sq l \<and> (\<forall>l'. l' \<in> set lines \<and> line_full sq l' \<longrightarrow> l' = l)"
  then obtain k where k: "k < length lines" "line_full sq (lines ! k)"
      "\<forall>j<k. \<not> line_full sq (lines ! j)"
    using first_index_exists [of l lines "line_full sq"] by blast
  from k(1,2) a have "lines ! k = l" by (meson nth_mem)
  with computeOutcome_first [OF k] show "computeOutcome sq = Won (arr_get sq (fst l)) (Some l)"
    by simp
qed

text \<open>A board with two full triples, row \<open>[0, 1, 2]\<close> and column \<open>[0, 3, 6]\<close>: the
  row, earlier in the list, is the one reported.\<close>

theorem computeOutcome_first_full_line_witness:
  "line_full two_lines_board (0, 1, 2) \<and> line_full two_lines_board (0, 3, 6)
   \<and> computeOutcome two_lines_board = Won MarkX (Some (0, 1, 2))"
proof -
  have row: "line_full two_lines_board (0, 1, 2)"
    by (simp add: line_full.simps two_lines_board_def arr_get_def is_array_index_def)
  have col: "line_full two_lines_board (0, 3, 6)"
    by (simp add: line_full.simps two_lines_board_def arr_get_def is_array_index_def)
  have hyp: "0 < length lines \<and> line_full two_lines_board (lines ! 0)
      \<and> (\<forall>j<0. \<not> line_full two_lines_board (lines ! j))"
    using row by (simp add: nth_lines)
  have "computeOutcome two_lines_board
      = Won (arr_get two_lines_board (fst (lines ! 0))) (Some (lines ! 0))"
    using computeOutcome_first_full_line [of two_lines_board, THEN conjunct2, THEN conjunct1,
        rule_format, of 0, OF hyp] by (rule conjunct1)
  then have "computeOutcome two_lines_board = Won MarkX (Some (0, 1, 2))"
    by (simp add: nth_lines two_lines_board_def arr_get_def is_array_index_def)
  with row col show ?thesis by blast
qed

subsection \<open>C10: winner and line go together\<close>

lemma truthy_cases: "truthy v \<Longrightarrow> v = MarkX \<or> v = MarkO"
  by (cases v) simp_all

lemma check_lines_cases:
  "check_lines sq ls = \<lparr>winner = Null, line = None\<rparr>
   \<or> (\<exists>l\<in>set ls. line_full sq l \<and> check_lines sq ls = \<lparr>winner = arr_get sq (fst l), line = Some l\<rparr>)"
  by (induction ls) (auto simp: check_lines_Cons simp del: check_lines.simps(2))

text \<open>
  Claim C10. For every nine-cell board, \<open>calculateWinner\<close> returns either
  \<^verbatim>\<open>{winner: null, line: null}\<close>, or a winner \<^verbatim>\<open>'X'\<close> or \<^verbatim>\<open>'O'\<close> together with a
  line that is one of the eight triples and whose three squares all hold the winner's mark.
\<close>

theorem calculateWinner_consistent:
  assumes "is_board sq"
  shows "(winner (calculateWinner sq) = Null \<and> line (calculateWinner sq) = None)
   \<or> (\<exists>a b c. line (calculateWinner sq) = Some (a, b, c) \<and> (a, b, c) \<in> set lines
        \<and> (winner (calculateWinner sq) = MarkX \<or> winner (calculateWinner sq) = MarkO)
        \<and> arr_get sq a = winner (calculateWinner sq)
        \<and> arr_get sq b = winner (calculateWinner sq)
        \<and> arr_get sq c = winner (calculateWinner sq))"
proof -
  consider (none) "calculateWinner sq = \<lparr>winner = Null, line = None\<rparr>"
    | (some) l where "l \<in> set lines" "line_full sq l"
        "calculateWinner sq = \<lparr>winner = arr_get sq (fst l), line = Some l\<rparr>"
    using check_lines_cases [of sq lines] unfolding calculateWinner_def by blast
  then show ?thesis
  proof cases
    case none
    then show ?thesis by simp
  next
    case some
    obtain a b c where l: "l = (a, b, c)" by (cases l)
    from some(2) l have full: "truthy (arr_get sq a)" "arr_get sq a = arr_get sq b"
        "arr_get sq a = arr_get sq c"
      by (auto simp: line_full.simps)
    from full(1) have "arr_get sq a = MarkX \<or> arr_get sq a = MarkO" by (rule truthy_cases)
    with some(1,3) l full(2,3) show ?thesis by auto
  qed
qed

text \<open>On the board with X on the top row: winner \<^verbatim>\<open>'X'\<close>, line \<open>[0, 1, 2]\<close>.\<close>

theorem calculateWinner_consistent_witness:
  "is_board x_row_board \<and> calculateWinner x_row_board = \<lparr>winner = MarkX, line = Some (0, 1, 2)\<rparr>
   \<and> (0, 1, 2) \<in> set lines \<and> arr_get x_row_board 0 = MarkX \<and> arr_get x_row_board 1 = MarkX
   \<and> arr_get x_row_board 2 = MarkX"
proof -
  have b: "is_board x_row_board" by (simp add: is_board_def x_row_board_def)
  have w: "calculateWinner x_row_board = \<lparr>winner = MarkX, line = Some (0, 1, 2)\<rparr>"
    by (simp add: calculateWinner_def lines_def x_row_board_def arr_get_def is_array_index_def)
  from calculateWinner_consistent [OF b] w
  have "(0, 1, 2) \<in> set lines \<and> arr_get x_row_board 0 = MarkX \<and> arr_get x_row_board 1 = MarkX
     \<and> arr_get x_row_board 2 = MarkX" by simp
  with b w show ?thesis by blast
qed

subsection \<open>C6: reset\<close>

lemma calculateWinner_array9_null: "calculateWinner array9_null = \<lparr>winner = Null, line = None\<rparr>"
  by (simp add: calculateWinner_def lines_def arr_get_def is_array_index_def elems_array9_null)

lemma not_every_array9_null: "\<not> every_Boolean array9_null"
  by (simp add: every_Boolean_def elems_array9_null)

lemma reset_eq: "reset s = init_state\<lparr>theme := theme s\<rparr>"
  by (simp add: reset_def handleReset_def squares_effect_def init_state_def
      calculateWinner_array9_null not_every_array9_null)

text \<open>
  Claim C6. \<open>reset\<close> is total (nothing in it can fail), and from every state, whatever
  its board, turn and outcome, it gives the initial value: a board of nine \<^verbatim>\<open>null\<close>
  squares, X to move, no winner, no draw, outcome \<open>InProgress\<close>. Only the theme, which
  is no part of the game state, is kept.
\<close>

theorem reset_restores_initial:
  "reset s = init_state\<lparr>theme := theme s\<rparr>
   \<and> squares (reset s) = array9_null
   \<and> elems (squares (reset s)) = [Null, Null, Null, Null, Null, Null, Null, Null, Null]
   \<and> xIsNext (reset s) = True
   \<and> winnerInfo (reset s) = \<lparr>winner = Null, line = None\<rparr>
   \<and> isDraw (reset s) = False
   \<and> outcome (reset s) = InProgress
   \<and> squares (reset s) = squares init_state
   \<and> xIsNext (reset s) = xIsNext init_state
   \<and> outcome (reset s) = outcome init_state"
  by (simp add: reset_eq init_state_def outcome_def elems_array9_null)

subsection \<open>C8: the theme is independent of the game\<close>

lemma click_ignored_theme: "click_ignored i (s\<lparr>theme := t\<rparr>) = click_ignored i s"
  by (simp add: click_ignored_def)

lemma squares_effect_theme: "squares_effect (s\<lparr>theme := t\<rparr>) = (squares_effect s)\<lparr>theme := t\<rparr>"
  by (simp add: squares_effect_def Let_def)

lemma handleSquareClick_theme:
  "handleSquareClick i (s\<lparr>theme := t\<rparr>) = (handleSquareClick i s)\<lparr>theme := t\<rparr>"
  by (simp add: handleSquareClick_def click_ignored_theme Let_def)

lemma applyMove_theme: "applyMove i (s\<lparr>theme := t\<rparr>) = (applyMove i s)\<lparr>theme := t\<rparr>"
  by (simp add: applyMove_def click_ignored_theme handleSquareClick_theme squares_effect_theme)

lemma theme_applyMove: "theme (applyMove i s) = theme s"
  by (simp add: applyMove_def handleSquareClick_def squares_effect_frame Let_def)

text \<open>
  Claim C8. \<open>toggleTheme\<close> changes the theme and nothing else (board, turn, winner
  information, draw flag and outcome are kept); \<open>applyMove\<close> and \<open>reset\<close> keep the
  theme; and the theme has no influence on them: running them in a state with another
  theme gives the same state but for that theme.
\<close>

theorem theme_independent:
  "squares (toggleTheme s) = squares s
   \<and> xIsNext (toggleTheme s) = xIsNext s
   \<and> winnerInfo (toggleTheme s) = winnerInfo s
   \<and> isDraw (toggleTheme s) = isDraw s
   \<and> outcome (toggleTheme s) = outcome s
   \<and> theme (toggleTheme s) \<noteq> theme s
   \<and> theme (applyMove i s) = theme s
   \<and> theme (reset s) = theme s
   \<and> applyMove i (s\<lparr>theme := t\<rparr>) = (applyMove i s)\<lparr>theme := t\<rparr>
   \<and> reset (s\<lparr>theme := t\<rparr>) = (reset s)\<lparr>theme := t\<rparr>"
  by (simp add: toggleTheme_def outcome_def theme_applyMove applyMove_theme reset_eq)

subsection \<open>Accepted and ignored clicks\<close>

lemma board_indices_eq: "board_indices = [0, 1, 2, 3, 4, 5, 6, 7, 8]"
  by (simp add: board_indices_def)

lemma in_board_indices: "i \<in> set board_indices \<longleftrightarrow> 0 \<le> i \<and> i \<le> 8"
  unfolding board_indices_eq by auto

lemma in_range_array_index: "0 \<le> i \<Longrightarrow> i \<le> 8 \<Longrightarrow> is_array_index i"
  by (simp add: is_array_index_def)

lemma Null_in_bounds:
  assumes "is_array_index i" "arr_get a i = Null"
  shows "nat i < length (elems a)" "elems a ! nat i = Null"
  using assms by (auto simp: arr_get_def split: if_splits)

lemma not_ignored:
  assumes "outcome s = InProgress" "arr_get (squares s) i = Null"
  shows "\<not> click_ignored i s"
  using assms InProgress_not_won [OF assms(1)] by (simp add: click_ignored_def)

lemma squares_effect_idem: "squares_effect (squares_effect s) = squares_effect s"
  by (simp add: squares_effect_def Let_def)

lemma applyMove_not_ignored:
  assumes "\<not> click_ignored i s"
  shows "squares (applyMove i s) = arr_set (slice (squares s)) i (if xIsNext s then MarkX else MarkO)"
    and "xIsNext (applyMove i s) = (\<not> xIsNext s)"
    and "outcome (applyMove i s) = computeOutcome (squares (applyMove i s))"
    and "squares_effect (applyMove i s) = applyMove i s"
  using assms
  by (simp_all add: applyMove_def handleSquareClick_def Let_def squares_effect_frame
      outcome_squares_effect squares_effect_idem)

lemma applyMove_ignored: "click_ignored i s \<Longrightarrow> applyMove i s = s"
  by (simp add: applyMove_def handleSquareClick_def)

subsection \<open>C9: an accepted move writes one square\<close>

text \<open>
  Claim C9. For an accepted move at \<open>i\<close> (\<open>i\<close> in \<open>[0, 8]\<close>, outcome \<open>InProgress\<close>,
  square \<open>i\<close> empty), every other square \<open>j\<close> of the board holds the same value after
  \<open>applyMove i\<close> as before: the new board is the copy of the old one with the single
  square \<open>i\<close> written.
\<close>

theorem applyMove_frame:
  assumes "0 \<le> i" "i \<le> 8" "outcome s = InProgress" "arr_get (squares s) i = Null"
  shows "(\<forall>j. 0 \<le> j \<and> j \<le> 8 \<and> j \<noteq> i
            \<longrightarrow> arr_get (squares (applyMove i s)) j = arr_get (squares s) j)
    \<and> squares (applyMove i s)
        = arr_set (slice (squares s)) i (if xIsNext s then MarkX else MarkO)
    \<and> elems (squares (applyMove i s))
        = (elems (squares s))[nat i := (if xIsNext s then MarkX else MarkO)]"
proof -
  have acc: "\<not> click_ignored i s" using assms(3,4) by (rule not_ignored)
  have idx: "is_array_index i" using assms(1,2) by (rule in_range_array_index)
  have sq: "squares (applyMove i s)
      = arr_set (slice (squares s)) i (if xIsNext s then MarkX else MarkO)"
    using acc by (rule applyMove_not_ignored(1))
  have others: "arr_get (squares (applyMove i s)) j = arr_get (squares s) j"
    if "0 \<le> j \<and> j \<le> 8 \<and> j \<noteq> i" for j
  proof -
    from that have "is_array_index j" by (simp add: in_range_array_index)
    with that show ?thesis by (simp add: sq arr_get_set_other arr_get_slice)
  qed
  have "nat i < length (elems (squares s))" using idx assms(4) by (rule Null_in_bounds(1))
  then have "elems (squares (applyMove i s))
      = (elems (squares s))[nat i := (if xIsNext s then MarkX else MarkO)]"
    using idx by (simp add: sq arr_set_def slice_def)
  with others sq show ?thesis by blast
qed

text \<open>The first move, at the centre of the empty board.\<close>

theorem applyMove_frame_witness:
  "(0::int) \<le> 4 \<and> (4::int) \<le> 8 \<and> outcome init_state = InProgress
   \<and> arr_get (squares init_state) 4 = Null
   \<and> arr_get (squares (applyMove 4 init_state)) 0 = arr_get (squares init_state) 0
   \<and> elems (squares (applyMove 4 init_state))
       = [Null, Null, Null, Null, MarkX, Null, Null, Null, Null]"
proof -
  have o: "outcome init_state = InProgress" by (simp add: outcome_def init_state_def)
  have c: "arr_get (squares init_state) 4 = Null"
    by (simp add: init_state_def arr_get_def is_array_index_def elems_array9_null)
  have e: "elems (squares init_state) = [Null, Null, Null, Null, Null, Null, Null, Null, Null]"
    by (simp add: init_state_def elems_array9_null)
  have x: "xIsNext init_state" by (simp add: init_state_def)
  have r: "(0::int) \<le> 4" "(4::int) \<le> 8" by simp_all
  note fr = applyMove_frame [of 4 init_state, OF r o c]
  have others: "\<forall>j. 0 \<le> j \<and> j \<le> 8 \<and> j \<noteq> 4
      \<longrightarrow> arr_get (squares (applyMove 4 init_state)) j = arr_get (squares init_state) j"
    using fr by (rule conjunct1)
  have "elems (squares (applyMove 4 init_state))
      = (elems (squares init_state))[nat 4 := (if xIsNext init_state then MarkX else MarkO)]"
    using fr by blast
  then have el: "elems (squares (applyMove 4 init_state))
      = [Null, Null, Null, Null, MarkX, Null, Null, Null, Null]"
    by (simp add: e x eval_nat_numeral)
  have "arr_get (squares (applyMove 4 init_state)) 0 = arr_get (squares init_state) 0"
    using others [rule_format, of 0] by simp
  with o c el show ?thesis by simp
qed

subsection \<open>C1: an accepted move, and the alternation of turns\<close>

lemma accepted_marks_alternate:
  "accepted_marks s js = alternating_marks (xIsNext s) (length (accepted_marks s js))"
proof (induction js arbitrary: s)
  case Nil
  show ?case by simp
next
  case (Cons i js)
  show ?case
  proof (cases "click_ignored i s")
    case True
    with Cons.IH [of s] show ?thesis by simp
  next
    case False
    with Cons.IH [of "applyMove i s"] show ?thesis
      by (simp add: applyMove_not_ignored(2))
  qed
qed

text \<open>
  Claim C1. For \<open>i\<close> in \<open>[0, 8]\<close>, when the outcome is \<open>InProgress\<close> and square \<open>i\<close>
  is empty, \<open>applyMove i\<close> stores in square \<open>i\<close> the mark of the player whose turn it
  is (\<^verbatim>\<open>'X'\<close> when \<open>xIsNext\<close>, \<^verbatim>\<open>'O'\<close> otherwise), flips \<open>xIsNext\<close>, and leaves the
  outcome that is computed from the new board. Consequently the marks written by the
  accepted moves of any sequence of clicks from the initial state are
  \<^verbatim>\<open>X, O, X, O, ...\<close>.
\<close>

theorem applyMove_accepted:
  assumes "0 \<le> i" "i \<le> 8" "outcome s = InProgress" "arr_get (squares s) i = Null"
  shows "arr_get (squares (applyMove i s)) i = (if xIsNext s then MarkX else MarkO)
    \<and> xIsNext (applyMove i s) = (\<not> xIsNext s)
    \<and> outcome (applyMove i s) = computeOutcome (squares (applyMove i s))
    \<and> accepted_marks init_state js
        = alternating_marks True (length (accepted_marks init_state js))"
proof -
  have acc: "\<not> click_ignored i s" using assms(3,4) by (rule not_ignored)
  have "arr_get (squares (applyMove i s)) i = (if xIsNext s then MarkX else MarkO)"
    by (simp only: applyMove_not_ignored(1) [OF acc] arr_get_set_same)
  moreover have "accepted_marks init_state js
      = alternating_marks True (length (accepted_marks init_state js))"
    using accepted_marks_alternate [of init_state js] by (simp add: init_state_def)
  ultimately show ?thesis
    using applyMove_not_ignored(2,3) [OF acc] by blast
qed

text \<open>O's move at the centre after X's at square 0; and a game with an ignored click
  on an occupied square and one after the win.\<close>

theorem applyMove_accepted_witness:
  "(0::int) \<le> 4 \<and> (4::int) \<le> 8
   \<and> outcome (applyMove 0 init_state) = InProgress
   \<and> arr_get (squares (applyMove 0 init_state)) 4 = Null
   \<and> xIsNext (applyMove 0 init_state) = False
   \<and> arr_get (squares (applyMove 4 (applyMove 0 init_state))) 4 = MarkO
   \<and> xIsNext (applyMove 4 (applyMove 0 init_state)) = True
   \<and> accepted_marks init_state [0, 0, 4, 1, 5, 2, 8] = [MarkX, MarkO, MarkX, MarkO, MarkX]"
proof -
  have r: "(0::int) \<le> 4" "(4::int) \<le> 8" by simp_all
  have o: "outcome (applyMove 0 init_state) = InProgress" by code_simp
  have c: "arr_get (squares (applyMove 0 init_state)) 4 = Null" by code_simp
  have x: "xIsNext (applyMove 0 init_state) = False" by code_simp
  have n: "length (accepted_marks init_state [0, 0, 4, 1, 5, 2, 8]) = 5" by code_simp
  have a: "alternating_marks True 5 = [MarkX, MarkO, MarkX, MarkO, MarkX]" by code_simp
  note th = applyMove_accepted [of 4 "applyMove 0 init_state" "[0, 0, 4, 1, 5, 2, 8]", OF r o c]
  have "arr_get (squares (applyMove 4 (applyMove 0 init_state))) 4 = MarkO"
    using th x by simp
  moreover have "xIsNext (applyMove 4 (applyMove 0 init_state)) = True"
    using th x by simp
  moreover have "accepted_marks init_state [0, 0, 4, 1, 5, 2, 8]
      = [MarkX, MarkO, MarkX, MarkO, MarkX]"
    using th n a by simp
  ultimately show ?thesis using r o c x by blast
qed

subsection \<open>The states the rendered tree can reach\<close>

lemma state_inv_init: "state_inv init_state"
  by (simp add: state_inv_def is_board_def init_state_def elems_array9_null squares_effect_def
      calculateWinner_array9_null not_every_array9_null)

lemma is_board_update:
  assumes "is_board a" "0 \<le> i" "i \<le> 8" "v \<noteq> Undefined"
  shows "is_board (arr_set (slice a) i v)"
proof -
  from assms(1) have len: "length (elems a) = 9" and all: "\<forall>x\<in>set (elems a). x \<noteq> Undefined"
    by (simp_all add: is_board_def list_all_iff)
  from assms(2,3) len have "nat i < length (elems a)" by simp
  moreover have "is_array_index i" using assms(2,3) by (rule in_range_array_index)
  ultimately have el: "elems (arr_set (slice a) i v) = (elems a)[nat i := v]"
    by (simp add: arr_set_def slice_def)
  have "\<forall>x\<in>set ((elems a)[nat i := v]). x \<noteq> Undefined"
    using all assms(4) set_update_subset_insert [of "elems a" "nat i" v] by auto
  with len show ?thesis by (simp add: is_board_def list_all_iff el)
qed

lemma state_inv_applyMove:
  assumes "state_inv s" "0 \<le> i" "i \<le> 8"
  shows "state_inv (applyMove i s)"
proof (cases "click_ignored i s")
  case True
  with assms(1) show ?thesis by (simp add: applyMove_ignored)
next
  case False
  from assms(1) have "is_board (squares s)" by (simp add: state_inv_def)
  then have "is_board (arr_set (slice (squares s)) i (if xIsNext s then MarkX else MarkO))"
    using assms(2,3) by (rule is_board_update) simp
  with applyMove_not_ignored(1,4) [OF False] show ?thesis by (simp add: state_inv_def)
qed

lemma state_inv_reset: "state_inv (reset s)"
  by (simp add: state_inv_def reset_def squares_effect_idem squares_effect_frame handleReset_def
      is_board_def elems_array9_null)

lemma state_inv_toggleTheme: "state_inv s \<Longrightarrow> state_inv (toggleTheme s)"
  by (simp add: state_inv_def toggleTheme_def squares_effect_theme)

lemma state_inv_dispatch: "state_inv s \<Longrightarrow> ui_event e \<Longrightarrow> state_inv (dispatch e s)"
  by (cases e) (simp_all add: in_board_indices state_inv_applyMove state_inv_reset
      state_inv_toggleTheme)

lemma state_inv_run: "state_inv s \<Longrightarrow> list_all ui_event es \<Longrightarrow> state_inv (run s es)"
  by (induction es arbitrary: s) (simp_all add: state_inv_dispatch)

subsection \<open>C4: ignored moves\<close>

lemma board_get:
  assumes "is_board a" "0 \<le> i" "i \<le> 8"
  shows "arr_get a i = elems a ! nat i" "elems a ! nat i \<in> set (elems a)" "arr_get a i \<noteq> Undefined"
proof -
  from assms have n: "nat i < length (elems a)" by (simp add: is_board_def)
  then show g: "arr_get a i = elems a ! nat i"
    using assms(2,3) by (simp add: arr_get_def is_array_index_def)
  from n show m: "elems a ! nat i \<in> set (elems a)" by simp
  from assms(1) m g show "arr_get a i \<noteq> Undefined"
    by (auto simp: is_board_def list_all_iff)
qed

lemma draw_every_Boolean:
  assumes "state_inv s" "isDraw s"
  shows "every_Boolean (squares s)"
proof (rule ccontr)
  assume n: "\<not> every_Boolean (squares s)"
  then have "\<not> isDraw (squares_effect s)"
    by (simp add: squares_effect_def Let_def)
  with assms show False by (simp add: state_inv_def)
qed

lemma terminal_ignored:
  assumes "state_inv s" "0 \<le> i" "i \<le> 8" "outcome s \<noteq> InProgress"
  shows "click_ignored i s"
proof (cases "truthy (winner (winnerInfo s))")
  case True
  then show ?thesis by (simp add: click_ignored_def)
next
  case False
  with assms(4) have "isDraw s" by (simp add: outcome_def split: if_splits)
  with assms(1) have ev: "every_Boolean (squares s)" by (rule draw_every_Boolean)
  from assms(1) have b: "is_board (squares s)" by (simp add: state_inv_def)
  from board_get [OF b assms(2,3)] ev have "truthy (arr_get (squares s) i)"
    by (auto simp: every_Boolean_def list_all_iff)
  then show ?thesis by (simp add: click_ignored_def)
qed

lemma occupied_ignored:
  assumes "state_inv s" "0 \<le> i" "i \<le> 8" "arr_get (squares s) i \<noteq> Null"
  shows "click_ignored i s"
proof -
  from assms(1) have b: "is_board (squares s)" by (simp add: state_inv_def)
  from board_get(3) [OF b assms(2,3)] assms(4) have "truthy (arr_get (squares s) i)"
    by (cases "arr_get (squares s) i") simp_all
  then show ?thesis by (simp add: click_ignored_def)
qed

lemma outcome_toggleTheme: "outcome (toggleTheme s) = outcome s"
  by (simp add: outcome_def toggleTheme_def)

lemma outcome_reset: "outcome (reset s) = InProgress"
  by (simp add: reset_eq outcome_def init_state_def)

text \<open>
  Claim C4. In a state of the data model and for \<open>i\<close> in \<open>[0, 8]\<close>: when the outcome
  is \<open>Won\<close> or \<open>Draw\<close>, or square \<open>i\<close> is not empty, \<open>applyMove i\<close> returns the state
  unchanged (board, turn and outcome). A terminal outcome stays under every event of the
  user interface but reset, and reset gives \<open>InProgress\<close>.
\<close>

theorem applyMove_rejected:
  assumes "state_inv s" "0 \<le> i" "i \<le> 8"
    and "outcome s \<noteq> InProgress \<or> arr_get (squares s) i \<noteq> Null"
  shows "applyMove i s = s
    \<and> (outcome s \<noteq> InProgress \<longrightarrow>
          (\<forall>e. ui_event e \<and> e \<noteq> ResetClick \<longrightarrow> outcome (dispatch e s) = outcome s)
          \<and> outcome (dispatch ResetClick s) = InProgress)"
proof -
  have "click_ignored i s"
    using assms terminal_ignored occupied_ignored by blast
  then have noop: "applyMove i s = s" by (rule applyMove_ignored)
  have stay: "outcome (dispatch e s) = outcome s"
    if t: "outcome s \<noteq> InProgress" and e: "ui_event e \<and> e \<noteq> ResetClick" for e
  proof (cases e)
    case (SquareClick j)
    with e have "0 \<le> j" "j \<le> 8" by (simp_all add: in_board_indices)
    with assms(1) t have "click_ignored j s" by (simp add: terminal_ignored)
    then show ?thesis using SquareClick by (simp add: applyMove_ignored)
  next
    case ResetClick
    with e show ?thesis by simp
  next
    case ThemeClick
    then show ?thesis by (simp add: outcome_toggleTheme)
  qed
  have "outcome (dispatch ResetClick s) = InProgress" by (simp add: outcome_reset)
  with noop stay show ?thesis by blast
qed

text \<open>The scenario "move at index 4 when the outcome is already Won".\<close>

lemma won_state_reached: "run init_state (map SquareClick [0, 3, 1, 5, 2]) = won_state"
  by (simp add: won_state_def won_board_def init_state_def applyMove_def handleSquareClick_def
      click_ignored_def squares_effect_def calculateWinner_def lines_def arr_get_def arr_set_def
      slice_def is_array_index_def every_Boolean_def array9_null_def eval_nat_numeral Let_def)

lemma state_inv_won_state: "state_inv won_state"
proof -
  have "list_all ui_event (map SquareClick [0, 3, 1, 5, 2])"
    by (simp add: board_indices_eq)
  with state_inv_init have "state_inv (run init_state (map SquareClick [0, 3, 1, 5, 2]))"
    by (rule state_inv_run)
  then show ?thesis by (simp only: won_state_reached)
qed

theorem applyMove_rejected_witness:
  "state_inv won_state \<and> (0::int) \<le> 4 \<and> (4::int) \<le> 8
   \<and> outcome won_state = Won MarkX (Some (0, 1, 2))
   \<and> arr_get (squares won_state) 4 = Null
   \<and> applyMove 4 won_state = won_state
   \<and> outcome (dispatch ThemeClick won_state) = outcome won_state
   \<and> outcome (dispatch ResetClick won_state) = InProgress"
proof -
  have r: "(0::int) \<le> 4" "(4::int) \<le> 8" by simp_all
  have o: "outcome won_state = Won MarkX (Some (0, 1, 2))"
    by (simp add: outcome_def won_state_def)
  then have t: "outcome won_state \<noteq> InProgress" by simp
  then have h: "outcome won_state \<noteq> InProgress \<or> arr_get (squares won_state) 4 \<noteq> Null" ..
  have c: "arr_get (squares won_state) 4 = Null"
    by (simp add: won_state_def won_board_def arr_get_def is_array_index_def)
  note th = applyMove_rejected [OF state_inv_won_state r h]
  from th have a: "applyMove 4 won_state = won_state" by (rule conjunct1)
  from th t have rest: "(\<forall>e. ui_event e \<and> e \<noteq> ResetClick
        \<longrightarrow> outcome (dispatch e won_state) = outcome won_state)
      \<and> outcome (dispatch ResetClick won_state) = InProgress" by blast
  have "outcome (dispatch ThemeClick won_state) = outcome won_state"
    using rest [THEN conjunct1, rule_format, of ThemeClick] by simp
  with rest a o c r state_inv_won_state show ?thesis by blast
qed

subsection \<open>Clicks at any index\<close>

lemma applyMove_completion_eq: "applyMove_completion i s = Returned Undefined (applyMove i s)"
  by (simp add: applyMove_completion_def handleSquareClick_completion_def applyMove_def
      handleSquareClick_def Let_def)

lemma state_inv_click_inv: "state_inv s \<Longrightarrow> click_inv s"
  by (simp add: state_inv_def click_inv_def is_board_def)

lemma list_all_update:
  "n < length xs \<Longrightarrow> P v \<Longrightarrow> P (xs ! n) \<Longrightarrow> list_all P (xs[n := v]) = list_all P xs"
proof (induction xs arbitrary: n)
  case Nil
  then show ?case by simp
next
  case (Cons x xs)
  then show ?case by (cases n) auto
qed

lemma list_all_update_keep:
  "list_all P xs \<Longrightarrow> P v \<Longrightarrow> list_all P (xs[n := v])"
  using set_update_subset_insert [of xs n v] by (auto simp: list_all_iff)

lemma click_inv_applyMove:
  assumes "click_inv s"
  shows "click_inv (applyMove i s)"
proof (cases "click_ignored i s")
  case True
  with assms show ?thesis by (simp add: applyMove_ignored)
next
  case False
  let ?m = "if xIsNext s then MarkX else MarkO"
  let ?xs = "elems (squares s)"
  have m: "?m \<noteq> Undefined" "?m \<noteq> Null" by simp_all
  from assms have len: "9 \<le> length ?xs"
    and t: "list_all (\<lambda>v. v \<noteq> Undefined) (take 9 ?xs)"
    and d: "list_all (\<lambda>v. v \<noteq> Null) (drop 9 ?xs)"
    by (simp_all add: click_inv_def)
  have sq: "squares (applyMove i s) = arr_set (slice (squares s)) i ?m"
    using False by (rule applyMove_not_ignored(1))
  have eff: "squares_effect (applyMove i s) = applyMove i s"
    using False by (rule applyMove_not_ignored(4))
  consider (inside) "is_array_index i" "nat i < length ?xs"
    | (beyond) "is_array_index i" "length ?xs \<le> nat i"
    | (property) "\<not> is_array_index i"
    by fastforce
  then have "9 \<le> length (elems (arr_set (slice (squares s)) i ?m))
      \<and> list_all (\<lambda>v. v \<noteq> Undefined) (take 9 (elems (arr_set (slice (squares s)) i ?m)))
      \<and> list_all (\<lambda>v. v \<noteq> Null) (drop 9 (elems (arr_set (slice (squares s)) i ?m)))"
  proof cases
    case inside
    then have e: "elems (arr_set (slice (squares s)) i ?m) = ?xs[nat i := ?m]"
      by (simp add: arr_set_def slice_def)
    have "list_all (\<lambda>v. v \<noteq> Undefined) (take 9 (?xs[nat i := ?m]))"
      unfolding take_update_swap using t m(1) by (rule list_all_update_keep)
    moreover have "list_all (\<lambda>v. v \<noteq> Null) (drop 9 (?xs[nat i := ?m]))"
    proof (cases "nat i < 9")
      case True
      then show ?thesis using d by (simp add: drop_update_cancel)
    next
      case False
      then have "9 \<le> nat i" by simp
      then show ?thesis
        unfolding drop_update_swap [OF \<open>9 \<le> nat i\<close>] using d m(2) by (intro list_all_update_keep)
    qed
    ultimately show ?thesis using len by (simp add: e)
  next
    case beyond
    then have e: "elems (arr_set (slice (squares s)) i ?m)
        = ?xs @ replicate (nat i - length ?xs) Undefined @ [?m]"
      by (simp add: arr_set_def slice_def)
    show ?thesis using len t d by (auto simp: e list_all_iff)
  next
    case property
    then have e: "elems (arr_set (slice (squares s)) i ?m) = ?xs"
      by (simp add: arr_set_def slice_def)
    show ?thesis using len t d by (simp add: e)
  qed
  with eff show ?thesis by (simp add: click_inv_def sq)
qed

lemma click_inv_dispatch: "click_inv s \<Longrightarrow> click_inv (dispatch e s)"
proof (cases e)
  case (SquareClick i)
  assume "click_inv s"
  then show ?thesis using SquareClick by (simp add: click_inv_applyMove)
next
  case ResetClick
  then show ?thesis by (simp add: state_inv_click_inv state_inv_reset)
next
  case ThemeClick
  assume "click_inv s"
  then show ?thesis using ThemeClick
    by (simp add: click_inv_def toggleTheme_def squares_effect_theme)
qed

lemma click_inv_run: "click_inv s \<Longrightarrow> click_inv (run s es)"
  by (induction es arbitrary: s) (simp_all add: click_inv_dispatch)

lemma click_inv_reached: "click_inv (run init_state es)"
  using state_inv_init by (intro click_inv_run state_inv_click_inv)

lemma check_lines_cong:
  assumes "\<forall>l\<in>set ls. arr_get a (fst l) = arr_get b (fst l)
      \<and> arr_get a (fst (snd l)) = arr_get b (fst (snd l))
      \<and> arr_get a (snd (snd l)) = arr_get b (snd (snd l))"
  shows "check_lines a ls = check_lines b ls"
  using assms
proof (induction ls)
  case Nil
  show ?case by simp
next
  case (Cons l ls)
  obtain x y z where l: "l = (x, y, z)" by (cases l)
  from Cons.prems l have eq: "arr_get a x = arr_get b x" "arr_get a y = arr_get b y"
      "arr_get a z = arr_get b z" by simp_all
  from Cons.prems have "check_lines a ls = check_lines b ls" by (intro Cons.IH) simp
  then show ?case unfolding l check_lines.simps eq by (rule arg_cong)
qed

lemma calculateWinner_cong:
  assumes "\<forall>j. 0 \<le> j \<and> j \<le> 8 \<longrightarrow> arr_get a j = arr_get b j"
  shows "calculateWinner a = calculateWinner b"
  unfolding calculateWinner_def
proof (rule check_lines_cong, rule ballI)
  fix l assume "l \<in> set lines"
  then have "0 \<le> fst l \<and> fst l \<le> 8 \<and> 0 \<le> fst (snd l) \<and> fst (snd l) \<le> 8
      \<and> 0 \<le> snd (snd l) \<and> snd (snd l) \<le> 8"
    by (auto simp: lines_def)
  with assms show "arr_get a (fst l) = arr_get b (fst l)
      \<and> arr_get a (fst (snd l)) = arr_get b (fst (snd l))
      \<and> arr_get a (snd (snd l)) = arr_get b (snd (snd l))" by blast
qed

lemma outside_cells_kept:
  assumes "\<not> click_ignored i s" "i < 0 \<or> 8 < i" "0 \<le> j" "j \<le> 8"
  shows "arr_get (squares (applyMove i s)) j = arr_get (squares s) j"
proof -
  have "j \<noteq> i" using assms(2,3,4) by auto
  moreover have "is_array_index j" using assms(3,4) by (rule in_range_array_index)
  ultimately show ?thesis
    by (simp add: applyMove_not_ignored(1) [OF assms(1)] arr_get_set_other arr_get_slice)
qed

lemma length_applyMove:
  assumes "\<not> click_ignored i s" "is_array_index i"
  shows "length (elems (squares (applyMove i s))) = max (length (elems (squares s))) (nat i + 1)"
  using assms(2) by (auto simp: applyMove_not_ignored(1) [OF assms(1)] arr_set_def slice_def)

lemma every_Boolean_outside:
  assumes "click_inv s" "\<not> click_ignored i s" "i < 0 \<or> 8 < i"
  shows "every_Boolean (squares (applyMove i s)) = every_Boolean (squares s)"
proof -
  let ?m = "if xIsNext s then MarkX else MarkO"
  let ?xs = "elems (squares s)"
  let ?P = "\<lambda>v. v = Undefined \<or> truthy v"
  have m: "?P ?m" by simp
  from assms(1) have len: "9 \<le> length ?xs"
    and d: "list_all (\<lambda>v. v \<noteq> Null) (drop 9 ?xs)"
    by (simp_all add: click_inv_def)
  have sq: "squares (applyMove i s) = arr_set (slice (squares s)) i ?m"
    using assms(2) by (rule applyMove_not_ignored(1))
  consider (inside) "is_array_index i" "nat i < length ?xs"
    | (beyond) "is_array_index i" "length ?xs \<le> nat i"
    | (property) "\<not> is_array_index i"
    by fastforce
  then have "list_all ?P (elems (arr_set (slice (squares s)) i ?m)) = list_all ?P ?xs"
  proof cases
    case inside
    from inside(1) assms(3) have nine: "9 \<le> nat i" by (simp add: is_array_index_def)
    from assms(2) have "\<not> truthy (arr_get (squares s) i)" by (simp add: click_ignored_def)
    with inside have f: "\<not> truthy (?xs ! nat i)" by (simp add: arr_get_def)
    have "?xs ! nat i = drop 9 ?xs ! (nat i - 9)" using nine inside(2) by simp
    moreover have "nat i - 9 < length (drop 9 ?xs)" using nine inside(2) by simp
    ultimately have "?xs ! nat i \<noteq> Null"
      using d by (metis (mono_tags, lifting) list_all_length)
    with f have "?xs ! nat i = Undefined" by (cases "?xs ! nat i") simp_all
    then have "?P (?xs ! nat i)" by simp
    with inside(2) m have "list_all ?P (?xs[nat i := ?m]) = list_all ?P ?xs"
      by (intro list_all_update)
    with inside show ?thesis by (simp add: arr_set_def slice_def)
  next
    case beyond
    then show ?thesis by (auto simp: arr_set_def slice_def list_all_iff)
  next
    case property
    then show ?thesis by (simp add: arr_set_def slice_def)
  qed
  then show ?thesis by (simp add: every_Boolean_def sq)
qed

lemma outcome_consistent: "squares_effect s = s \<Longrightarrow> outcome s = computeOutcome (squares s)"
  using outcome_squares_effect [of s] by simp

lemma outcome_out_of_range:
  assumes "click_inv s" "i < 0 \<or> 8 < i"
  shows "outcome (applyMove i s) = outcome s"
proof (cases "click_ignored i s")
  case True
  then show ?thesis by (simp add: applyMove_ignored)
next
  case False
  have "\<forall>j. 0 \<le> j \<and> j \<le> 8
      \<longrightarrow> arr_get (squares (applyMove i s)) j = arr_get (squares s) j"
    using outside_cells_kept [OF False assms(2)] by blast
  then have w: "calculateWinner (squares (applyMove i s)) = calculateWinner (squares s)"
    by (rule calculateWinner_cong)
  have e: "every_Boolean (squares (applyMove i s)) = every_Boolean (squares s)"
    using assms(1) False assms(2) by (rule every_Boolean_outside)
  from assms(1) have "squares_effect s = s" by (simp add: click_inv_def)
  then have "outcome s = computeOutcome (squares s)" by (rule outcome_consistent)
  moreover have "outcome (applyMove i s) = computeOutcome (squares (applyMove i s))"
    using False by (rule applyMove_not_ignored(3))
  ultimately show ?thesis by (simp add: computeOutcome_eq w e)
qed

subsection \<open>C7: nine squares, and marks stay\<close>







subsection \<open>C3: draw and in progress\<close>

lemma no_full_line_no_winner:
  assumes "\<forall>l\<in>set lines. \<not> line_full sq l"
  shows "calculateWinner sq = \<lparr>winner = Null, line = None\<rparr>"
  using check_lines_cases [of sq lines] assms unfolding calculateWinner_def by blast

lemma board_every_Boolean:
  assumes "is_board sq"
  shows "every_Boolean sq \<longleftrightarrow> Null \<notin> set (elems sq)"
proof -
  have "(v = Undefined \<or> truthy v) \<longleftrightarrow> v \<noteq> Null" if "v \<noteq> Undefined" for v
    using that by (cases v) simp_all
  with assms show ?thesis
    by (auto simp: every_Boolean_def is_board_def list_all_iff)
qed

lemma no_winner_outcome:
  assumes "is_board sq" "\<forall>l\<in>set lines. \<not> line_full sq l"
  shows "computeOutcome sq = (if Null \<in> set (elems sq) then InProgress else Draw)"
  by (simp add: computeOutcome_eq no_full_line_no_winner [OF assms(2)]
      board_every_Boolean [OF assms(1)])

lemma count_list_update:
  "n < length xs \<Longrightarrow> xs ! n \<noteq> y
   \<Longrightarrow> count_list (xs[n := v]) y = count_list xs y + (if v = y then 1 else 0)"
proof (induction xs arbitrary: n)
  case Nil
  then show ?case by simp
next
  case (Cons x xs)
  then show ?case by (cases n) auto
qed

lemma applyMove_elems:
  assumes "\<not> click_ignored i s" "is_array_index i" "nat i < length (elems (squares s))"
  shows "elems (squares (applyMove i s))
      = (elems (squares s))[nat i := (if xIsNext s then MarkX else MarkO)]"
  using assms(2,3) by (simp add: applyMove_not_ignored(1) [OF assms(1)] arr_set_def slice_def)

lemma turn_balanced_applyMove:
  assumes "state_inv s" "turn_balanced s" "0 \<le> i" "i \<le> 8"
  shows "turn_balanced (applyMove i s)"
proof (cases "click_ignored i s")
  case True
  with assms(2) show ?thesis by (simp add: applyMove_ignored)
next
  case False
  from assms(1) have b: "is_board (squares s)" by (simp add: state_inv_def)
  then have n: "nat i < length (elems (squares s))" using assms(3,4) by (simp add: is_board_def)
  have idx: "is_array_index i" using assms(3,4) by (rule in_range_array_index)
  from False have "\<not> truthy (arr_get (squares s) i)" by (simp add: click_ignored_def)
  with board_get(3) [OF b assms(3,4)] have "arr_get (squares s) i = Null"
    by (cases "arr_get (squares s) i") simp_all
  with board_get(1) [OF b assms(3,4)] have c: "elems (squares s) ! nat i = Null" by simp
  then have c': "elems (squares s) ! nat i \<noteq> MarkX" "elems (squares s) ! nat i \<noteq> MarkO"
    by simp_all
  show ?thesis
    using assms(2)
    by (simp add: turn_balanced_def applyMove_elems [OF False idx n]
        applyMove_not_ignored(2) [OF False] count_list_update [OF n c'(1)]
        count_list_update [OF n c'(2)])
qed

lemma turn_balanced_dispatch:
  assumes "state_inv s" "turn_balanced s" "ui_event e"
  shows "turn_balanced (dispatch e s)"
proof (cases e)
  case (SquareClick i)
  with assms show ?thesis by (simp add: in_board_indices turn_balanced_applyMove)
next
  case ResetClick
  then show ?thesis
    by (simp add: reset_eq turn_balanced_def init_state_def elems_array9_null)
next
  case ThemeClick
  with assms(2) show ?thesis by (simp add: turn_balanced_def toggleTheme_def)
qed

lemma turn_balanced_run:
  "state_inv s \<Longrightarrow> turn_balanced s \<Longrightarrow> list_all ui_event es \<Longrightarrow> turn_balanced (run s es)"
  by (induction es arbitrary: s) (simp_all add: state_inv_dispatch turn_balanced_dispatch)

lemma turn_balanced_init: "turn_balanced init_state"
  by (simp add: turn_balanced_def init_state_def elems_array9_null)

text \<open>
  The board X,O,X,O,X,O,O,X,O is not reached by moves: no sequence of events of the user
  interface from the initial state gives it, since X moves first and the turns
  alternate; and no sequence of clicks writes the marks in that order.
\<close>

theorem spec_draw_board_not_reached:
  "\<not> (\<exists>es. list_all ui_event es \<and> elems (squares (run init_state es)) = elems spec_draw_board)
   \<and> \<not> (\<exists>js. accepted_marks init_state js
          = [MarkX, MarkO, MarkX, MarkO, MarkX, MarkO, MarkO, MarkX, MarkO])"
proof
  show "\<not> (\<exists>es. list_all ui_event es
      \<and> elems (squares (run init_state es)) = elems spec_draw_board)"
  proof
    assume "\<exists>es. list_all ui_event es
      \<and> elems (squares (run init_state es)) = elems spec_draw_board"
    then obtain es where es: "list_all ui_event es"
      and b: "elems (squares (run init_state es)) = elems spec_draw_board" by blast
    from state_inv_init turn_balanced_init es have "turn_balanced (run init_state es)"
      by (rule turn_balanced_run)
    with b show False
      by (simp add: turn_balanced_def spec_draw_board_def split: if_splits)
  qed
next
  show "\<not> (\<exists>js. accepted_marks init_state js
      = [MarkX, MarkO, MarkX, MarkO, MarkX, MarkO, MarkO, MarkX, MarkO])"
  proof
    assume "\<exists>js. accepted_marks init_state js
      = [MarkX, MarkO, MarkX, MarkO, MarkX, MarkO, MarkO, MarkX, MarkO]"
    then obtain js where js: "accepted_marks init_state js
      = [MarkX, MarkO, MarkX, MarkO, MarkX, MarkO, MarkO, MarkX, MarkO]" by blast
    have x: "xIsNext init_state" by (simp add: init_state_def)
    have "alternating_marks True 9 = [MarkX, MarkO, MarkX, MarkO, MarkX, MarkO, MarkX, MarkO, MarkX]"
      by code_simp
    with accepted_marks_alternate [of init_state js] js x show False by simp
  qed
qed

text \<open>
  Claim C3, amended. For every nine-cell board with no full triple, \<open>computeOutcome\<close>
  is \<open>Draw\<close> when no square is empty and \<open>InProgress\<close> when one is. In particular it
  is \<open>Draw\<close> on the board X,O,X,O,X,O,O,X,O; and a full board that moves do reach, the
  one after the moves 0, 1, 2, 4, 3, 5, 7, 6, 8, has outcome \<open>Draw\<close>.
\<close>

theorem computeOutcome_draw_or_in_progress:
  assumes "is_board sq" "\<forall>l\<in>set lines. \<not> line_full sq l"
  shows "(Null \<notin> set (elems sq) \<longrightarrow> computeOutcome sq = Draw)
    \<and> (Null \<in> set (elems sq) \<longrightarrow> computeOutcome sq = InProgress)
    \<and> computeOutcome spec_draw_board = Draw
    \<and> squares (run init_state (map SquareClick [0, 1, 2, 4, 3, 5, 7, 6, 8])) = played_draw_board
    \<and> outcome (run init_state (map SquareClick [0, 1, 2, 4, 3, 5, 7, 6, 8])) = Draw"
proof -
  have "computeOutcome spec_draw_board = Draw" by code_simp
  moreover have "outcome (run init_state (map SquareClick [0, 1, 2, 4, 3, 5, 7, 6, 8])) = Draw"
    by code_simp
  moreover have "squares (run init_state (map SquareClick [0, 1, 2, 4, 3, 5, 7, 6, 8]))
      = played_draw_board"
    by (simp add: played_draw_board_def init_state_def applyMove_def handleSquareClick_def
      click_ignored_def squares_effect_def calculateWinner_def lines_def arr_get_def arr_set_def
      slice_def is_array_index_def every_Boolean_def array9_null_def eval_nat_numeral Let_def)
  ultimately show ?thesis
    using no_winner_outcome [OF assms] by simp
qed

lemma spec_draw_board_no_line: "\<forall>l\<in>set lines. \<not> line_full spec_draw_board l"
  by (simp add: lines_def line_full.simps spec_draw_board_def arr_get_def is_array_index_def)

lemma array9_null_no_line: "\<forall>l\<in>set lines. \<not> line_full array9_null l"
  by (simp add: lines_def line_full.simps arr_get_def is_array_index_def elems_array9_null)

theorem computeOutcome_draw_or_in_progress_witness:
  "is_board spec_draw_board \<and> Null \<notin> set (elems spec_draw_board)
   \<and> computeOutcome spec_draw_board = Draw
   \<and> is_board array9_null \<and> Null \<in> set (elems array9_null)
   \<and> computeOutcome array9_null = InProgress"
proof -
  have b1: "is_board spec_draw_board" by (simp add: is_board_def spec_draw_board_def)
  have n1: "Null \<notin> set (elems spec_draw_board)" by (simp add: spec_draw_board_def)
  have b2: "is_board array9_null" by (simp add: is_board_def elems_array9_null)
  have n2: "Null \<in> set (elems array9_null)" by (simp add: elems_array9_null)
  have "computeOutcome spec_draw_board = Draw"
    using computeOutcome_draw_or_in_progress [OF b1 spec_draw_board_no_line] n1 by blast
  moreover have "computeOutcome array9_null = InProgress"
    using computeOutcome_draw_or_in_progress [OF b2 array9_null_no_line] n2 by blast
  ultimately show ?thesis using b1 n1 b2 n2 by blast
qed

subsection \<open>C5: an index outside the board\<close>

lemma Won_truthy: "outcome s = Won m l \<Longrightarrow> truthy (winner (winnerInfo s))"
  by (simp add: outcome_def split: if_splits)

lemma applyMove_changes: "\<not> click_ignored i s \<Longrightarrow> applyMove i s \<noteq> s"
  using applyMove_not_ignored(2) [of i s] by auto

lemma applyMove_grows:
  assumes "\<not> click_ignored i s" "is_array_index i" "length (elems (squares s)) \<le> nat i"
  shows "length (elems (squares (applyMove i s))) = nat i + 1"
  using assms(2,3) by (simp add: applyMove_not_ignored(1) [OF assms(1)] arr_set_def slice_def)

lemma applyMove_property:
  assumes "\<not> click_ignored i s" "\<not> is_array_index i"
  shows "elems (squares (applyMove i s)) = elems (squares s)"
  using assms(2) by (simp add: applyMove_not_ignored(1) [OF assms(1)] arr_set_def slice_def)

text \<open>
  Claim C5, amended. \<open>handleSquareClick\<close> has no range check. For an integer \<open>i\<close>
  outside \<open>[0, 8]\<close>, \<open>applyMove i\<close> throws nothing and returns \<^verbatim>\<open>undefined\<close>, no error
  code. It leaves the state unchanged (board, turn and outcome) when the outcome is
  \<open>Won\<close> or when the array already holds a mark under \<open>i\<close>. Otherwise the move is
  accepted: the mark of the player to move is stored under \<open>i\<close>, the turn flips, and
  the squares \<open>0 .. 8\<close> keep their values; for \<open>9 \<le> i < 2^32 - 1\<close> the array then has
  the larger of its old length and \<open>i + 1\<close> elements (so \<open>i + 1\<close> when it had nine), for
  any other \<open>i\<close> the mark is a property of the array and its elements are kept. The
  outcome is unchanged by \<open>applyMove i\<close> in every state of the data model, and in every
  state reached from the initial state by events at any indices.
\<close>

theorem applyMove_out_of_range:
  assumes "i < 0 \<or> 8 < i"
  shows "applyMove_completion i s = Returned Undefined (applyMove i s)
    \<and> ((\<exists>m l. outcome s = Won m l) \<or> truthy (arr_get (squares s) i) \<longrightarrow> applyMove i s = s)
    \<and> (\<not> (\<exists>m l. outcome s = Won m l) \<and> \<not> truthy (arr_get (squares s) i) \<longrightarrow>
          squares (applyMove i s)
            = arr_set (slice (squares s)) i (if xIsNext s then MarkX else MarkO)
          \<and> arr_get (squares (applyMove i s)) i = (if xIsNext s then MarkX else MarkO)
          \<and> xIsNext (applyMove i s) = (\<not> xIsNext s)
          \<and> applyMove i s \<noteq> s
          \<and> (\<forall>j. 0 \<le> j \<and> j \<le> 8
                \<longrightarrow> arr_get (squares (applyMove i s)) j = arr_get (squares s) j)
          \<and> (8 < i \<and> i < 4294967295
                \<longrightarrow> length (elems (squares (applyMove i s)))
                    = max (length (elems (squares s))) (nat i + 1))
          \<and> (is_board (squares s) \<and> 8 < i \<and> i < 4294967295
                \<longrightarrow> length (elems (squares (applyMove i s))) = nat i + 1)
          \<and> (i < 0 \<or> 4294967295 \<le> i
                \<longrightarrow> elems (squares (applyMove i s)) = elems (squares s)))
    \<and> (state_inv s \<longrightarrow> outcome (applyMove i s) = outcome s)
    \<and> (\<forall>es. outcome (applyMove i (run init_state es)) = outcome (run init_state es))"
proof (intro conjI impI allI)
  show "applyMove_completion i s = Returned Undefined (applyMove i s)"
    by (rule applyMove_completion_eq)
next
  assume "(\<exists>m l. outcome s = Won m l) \<or> truthy (arr_get (squares s) i)"
  then have "click_ignored i s" by (auto simp: click_ignored_def dest: Won_truthy)
  then show "applyMove i s = s" by (rule applyMove_ignored)
next
  assume "state_inv s"
  then have "click_inv s" by (rule state_inv_click_inv)
  then show "outcome (applyMove i s) = outcome s" using assms by (rule outcome_out_of_range)
next
  fix es
  show "outcome (applyMove i (run init_state es)) = outcome (run init_state es)"
    using click_inv_reached assms by (rule outcome_out_of_range)
next
  assume a: "\<not> (\<exists>m l. outcome s = Won m l) \<and> \<not> truthy (arr_get (squares s) i)"
  then have acc: "\<not> click_ignored i s" by (auto simp: click_ignored_def outcome_def)
  show "squares (applyMove i s)
      = arr_set (slice (squares s)) i (if xIsNext s then MarkX else MarkO)"
    using acc by (rule applyMove_not_ignored(1))
  show "arr_get (squares (applyMove i s)) i = (if xIsNext s then MarkX else MarkO)"
    by (simp only: applyMove_not_ignored(1) [OF acc] arr_get_set_same)
  show "xIsNext (applyMove i s) = (\<not> xIsNext s)"
    using acc by (rule applyMove_not_ignored(2))
  show "applyMove i s \<noteq> s" using acc by (rule applyMove_changes)
  show "arr_get (squares (applyMove i s)) j = arr_get (squares s) j"
    if "0 \<le> j \<and> j \<le> 8" for j
    using that outside_cells_kept [OF acc assms, of j] by blast
  show "length (elems (squares (applyMove i s)))
      = max (length (elems (squares s))) (nat i + 1)"
    if "8 < i \<and> i < 4294967295"
  proof -
    from that have "is_array_index i" by (simp add: is_array_index_def)
    with acc show ?thesis by (rule length_applyMove)
  qed
  show "length (elems (squares (applyMove i s))) = nat i + 1"
    if "is_board (squares s) \<and> 8 < i \<and> i < 4294967295"
  proof -
    from that have "is_array_index i" by (simp add: is_array_index_def)
    moreover from that have "9 \<le> nat i" by arith
    with that have "length (elems (squares s)) \<le> nat i" by (simp add: is_board_def)
    ultimately show ?thesis by (rule applyMove_grows [OF acc])
  qed
  show "elems (squares (applyMove i s)) = elems (squares s)" if "i < 0 \<or> 4294967295 \<le> i"
    using that by (intro applyMove_property [OF acc]) (auto simp: is_array_index_def)
qed

text \<open>A click at index 9 on the initial state is not ignored: X is written at index 9
  of a board that now has ten elements, and it is O's turn.\<close>

theorem applyMove_out_of_range_counterexample:
  "applyMove 9 init_state \<noteq> init_state
   \<and> xIsNext init_state = True \<and> xIsNext (applyMove 9 init_state) = False
   \<and> elems (squares init_state) = [Null, Null, Null, Null, Null, Null, Null, Null, Null]
   \<and> elems (squares (applyMove 9 init_state))
       = [Null, Null, Null, Null, Null, Null, Null, Null, Null, MarkX]"
proof -
  have x: "xIsNext init_state = True" by code_simp
  have x': "xIsNext (applyMove 9 init_state) = False" by code_simp
  from x x' have "applyMove 9 init_state \<noteq> init_state" by auto
  moreover have "elems (squares init_state) = [Null, Null, Null, Null, Null, Null, Null, Null, Null]"
    by code_simp
  moreover have "elems (squares (applyMove 9 init_state))
       = [Null, Null, Null, Null, Null, Null, Null, Null, Null, MarkX]"
    by code_simp
  ultimately show ?thesis using x x' by blast
qed

text \<open>Index 9: ignored in the won state, accepted in the initial state with the
  outcome kept; index 10 after a click at 11.\<close>

theorem applyMove_out_of_range_witness:
  "((9::int) < 0 \<or> (8::int) < 9)
   \<and> applyMove_completion 9 init_state = Returned Undefined (applyMove 9 init_state)
   \<and> outcome won_state = Won MarkX (Some (0, 1, 2))
   \<and> applyMove 9 won_state = won_state
   \<and> outcome init_state = InProgress
   \<and> arr_get (squares init_state) 9 = Undefined
   \<and> arr_get (squares (applyMove 9 init_state)) 9 = MarkX
   \<and> xIsNext (applyMove 9 init_state) = False
   \<and> length (elems (squares (applyMove 9 init_state))) = 10
   \<and> state_inv init_state
   \<and> outcome (applyMove 9 init_state) = InProgress
   \<and> outcome (applyMove 10 (run init_state [SquareClick 11])) = InProgress"
proof -
  have r: "(9::int) < 0 \<or> (8::int) < 9" by simp
  have r': "(10::int) < 0 \<or> (8::int) < 10" by simp
  have w: "outcome won_state = Won MarkX (Some (0, 1, 2))"
    by (simp add: outcome_def won_state_def)
  have o: "outcome init_state = InProgress" by (simp add: outcome_def init_state_def)
  have o': "outcome (run init_state [SquareClick 11]) = InProgress" by code_simp
  have u: "arr_get (squares init_state) 9 = Undefined"
    by (simp add: init_state_def arr_get_def is_array_index_def elems_array9_null)
  have x: "xIsNext init_state" by (simp add: init_state_def)
  have b: "is_board (squares init_state)"
    by (simp add: init_state_def is_board_def elems_array9_null)
  note th = applyMove_out_of_range [OF r, of init_state]
  from th have c: "applyMove_completion 9 init_state = Returned Undefined (applyMove 9 init_state)"
    by (rule conjunct1)
  have nw: "applyMove 9 won_state = won_state"
    using applyMove_out_of_range [OF r, of won_state] w by blast
  have acc: "\<not> (\<exists>m l. outcome init_state = Won m l) \<and> \<not> truthy (arr_get (squares init_state) 9)"
    using o u by simp
  note th2 = th [THEN conjunct2, THEN conjunct2, THEN conjunct1, rule_format, OF acc]
  from th2 have g: "arr_get (squares (applyMove 9 init_state)) 9
      = (if xIsNext init_state then MarkX else MarkO)" by blast
  from th2 have t: "xIsNext (applyMove 9 init_state) = (\<not> xIsNext init_state)" by blast
  from th2 have "is_board (squares init_state) \<and> (8::int) < 9 \<and> (9::int) < 4294967295
      \<longrightarrow> length (elems (squares (applyMove 9 init_state))) = nat 9 + 1" by blast
  with b have n: "length (elems (squares (applyMove 9 init_state))) = nat 9 + 1" by simp
  from th have "state_inv init_state \<longrightarrow> outcome (applyMove 9 init_state) = outcome init_state"
    by blast
  with state_inv_init o have k: "outcome (applyMove 9 init_state) = InProgress" by simp
  from applyMove_out_of_range [OF r', of init_state]
  have "\<forall>es. outcome (applyMove 10 (run init_state es)) = outcome (run init_state es)" by blast
  then have "outcome (applyMove 10 (run init_state [SquareClick 11]))
      = outcome (run init_state [SquareClick 11])" by (rule spec)
  with o' have k': "outcome (applyMove 10 (run init_state [SquareClick 11])) = InProgress"
    by (simp only:)
  from g x have g': "arr_get (squares (applyMove 9 init_state)) 9 = MarkX" by simp
  from t x have t': "xIsNext (applyMove 9 init_state) = False" by simp
  from n have n': "length (elems (squares (applyMove 9 init_state))) = 10" by simp
  from r c w nw o u g' t' n' state_inv_init k k' show ?thesis by blast
qed

end
